theory Spec2Isabelle
  imports Complex_Main
begin

section \<open>FaceFolio backend: data\<close>

text \<open>
  The model follows \<^verbatim>\<open>FaceFolio/backend/main.py\<close>. A face encoding is a list of
  numbers (the rows of the embedding array, the lists kept in the cache and in the
  pickle file). A bounding box is the four numbers \<^verbatim>\<open>[x1, y1, x2, y2]\<close>.

  A Python float is an IEEE double. It is modelled as the real number it denotes, and
  the arithmetic of \<open>cosine_distance\<close> rounds every result to the nearest double
  (\<open>fl\<close> below). Results beyond the largest double (infinities, NaN) are outside the
  model. The boxes that \<open>process_photo\<close> hands to \<open>box_iou\<close> have integer
  coordinates, on which its arithmetic is exact up to the final division.
\<close>

type_synonym vec = "real list"

type_synonym box = "real \<times> real \<times> real \<times> real"

type_synonym ibox = "int \<times> int \<times> int \<times> int"

text \<open>
  Exceptions are values. \<open>HTTPException c\<close> is the exception the handlers raise with
  status code \<open>c\<close>; the other constructors are Python exceptions that no handler of the
  source catches at the place they arise.
\<close>

datatype error = HTTPException nat | ValueError | IndexError | OSError

subsection \<open>Configuration\<close>


definition TEMP_CROP_DIR :: string where
  "TEMP_CROP_DIR = ''temp_crops''"

definition SORTED_PHOTOS_DIR :: string where
  "SORTED_PHOTOS_DIR = ''sorted_photos''"

definition ENCODINGS_FILE :: string where
  "ENCODINGS_FILE = ''face_encodings.pickle''"

subsection \<open>Paths\<close>

text \<open>\<^verbatim>\<open>os.path.join\<close> of two components on a POSIX system.\<close>

definition path_join :: "string \<Rightarrow> string \<Rightarrow> string" where
  "path_join a b =
     (if b \<noteq> [] \<and> hd b = CHR ''/'' then b
      else if a = [] \<or> last a = CHR ''/'' then a @ b
      else a @ ''/'' @ b)"

text \<open>The components of a path, the text between its slashes.\<close>

fun split_path :: "string \<Rightarrow> string list" where
  "split_path [] = [[]]"
| "split_path (c # cs) =
     (if c = CHR ''/'' then [] # split_path cs
      else case split_path cs of
             [] \<Rightarrow> [[c]]
           | x # xs \<Rightarrow> (c # x) # xs)"

text \<open>\<^verbatim>\<open>os.path.basename\<close>: what follows the last slash.\<close>

definition basename :: "string \<Rightarrow> string" where
  "basename p = last (split_path p)"

text \<open>
  The directory entry a path leads to, walking from the root: an empty component and
  \<^verbatim>\<open>.\<close> stay, \<^verbatim>\<open>..\<close> goes up. The stack holds the components reached, the last
  one first. The operating system resolves a path this way when every directory named
  on it exists and none is a symbolic link.
\<close>

fun walk :: "string list \<Rightarrow> string list \<Rightarrow> string list" where
  "walk st [] = st"
| "walk st (c # cs) =
     (if c = [] \<or> c = ''.'' then walk st cs
      else if c = ''..'' then walk (tl st) cs
      else walk (c # st) cs)"

definition normpath :: "string \<Rightarrow> string" where
  "normpath p = concat (map (\<lambda>c. CHR ''/'' # c) (rev (walk [] (split_path p))))"

text \<open>\<^verbatim>\<open>sep.join(xs)\<close>.\<close>

fun join :: "string \<Rightarrow> string list \<Rightarrow> string" where
  "join sep [] = []"
| "join sep [x] = x"
| "join sep (x # y # ys) = x @ sep @ join sep (y # ys)"

section \<open>Double arithmetic\<close>

text \<open>Rounding to the nearest integer, a tie to the even one.\<close>

definition rne :: "real \<Rightarrow> int" where
  "rne q =
     (let f = \<lfloor>q\<rfloor>; r = q - of_int f
      in if r < 1 / 2 then f
         else if 1 / 2 < r then f + 1
         else if even f then f else f + 1)"

text \<open>
  Rounding to the nearest double, a tie to the even significand: 53 significant bits,
  and below \<open>2 powr (- 1022)\<close> the fixed spacing \<open>2 powr (- 1074)\<close> of the subnormal
  numbers.
\<close>

definition fl :: "real \<Rightarrow> real" where
  "fl x =
     (if x = 0 then 0
      else let e = max (\<lfloor>log 2 \<bar>x\<bar>\<rfloor> - 52) (- 1074)
           in of_int (rne (x / 2 powr of_int e)) * 2 powr of_int e)"

section \<open>Helper functions\<close>

subsection \<open>cosine_distance\<close>

text \<open>\<^verbatim>\<open>np.array(a, dtype=float)\<close>: every element becomes a double.\<close>

definition np_array :: "vec \<Rightarrow> vec" where
  "np_array a = map fl a"

text \<open>
  The sum of products of \<^verbatim>\<open>np.dot\<close>, every product and every partial sum rounded,
  taken from left to right. The library may add in another order; on the vectors this
  theory evaluates it on every order gives the same sum, all partial results being
  exact.
\<close>

fun dot_acc :: "real \<Rightarrow> vec \<Rightarrow> vec \<Rightarrow> real" where
  "dot_acc s (x # xs) (y # ys) = dot_acc (fl (s + fl (x * y))) xs ys"
| "dot_acc s xs ys = s"

text \<open>
  \<^verbatim>\<open>np.dot\<close> of two one-dimensional arrays: it raises \<^verbatim>\<open>ValueError\<close> when the
  shapes are not aligned.
\<close>

definition np_dot :: "vec \<Rightarrow> vec \<Rightarrow> error + real" where
  "np_dot a b =
     (if length a \<noteq> length b then Inl ValueError else Inr (dot_acc 0 a b))"

text \<open>
  \<^verbatim>\<open>np.linalg.norm\<close> of a one-dimensional array: the square root of the dot product
  of the array with itself.
\<close>

definition linalg_norm :: "vec \<Rightarrow> real" where
  "linalg_norm a = fl (sqrt (dot_acc 0 a a))"

text \<open>
  The norms are computed and the zero test is made before the dot product, so a pair
  with a zero-norm member yields 1.0 whatever the two lengths are.
\<close>

definition cosine_distance :: "vec \<Rightarrow> vec \<Rightarrow> error + real" where
  "cosine_distance a b =
     (let a = np_array a;
          b = np_array b;
          denom = fl (linalg_norm a * linalg_norm b)
      in if denom = 0 then Inr 1
         else case np_dot a b of
                Inl e \<Rightarrow> Inl e
              | Inr d \<Rightarrow> Inr (fl (1 - fl (d / denom))))"



subsection \<open>box_iou\<close>

definition box_iou :: "box \<Rightarrow> box \<Rightarrow> real" where
  "box_iou boxA boxB =
     (case boxA of (a0, a1, a2, a3) \<Rightarrow>
      case boxB of (b0, b1, b2, b3) \<Rightarrow>
        let xA = max a0 b0;
            yA = max a1 b1;
            xB = min a2 b2;
            yB = min a3 b3;
            interW = max 0 (xB - xA);
            interH = max 0 (yB - yA);
            interArea = interW * interH;
            boxAArea = max 0 (a2 - a0) * max 0 (a3 - a1);
            boxBArea = max 0 (b2 - b0) * max 0 (b3 - b1);
            denom = boxAArea + boxBArea - interArea
        in if denom \<le> 0 then 0 else interArea / denom)"

text \<open>
  The quantities the documentation of \<open>box_iou\<close> speaks of, named so that statements
  about the function can refer to them.
\<close>

definition clamped_area :: "box \<Rightarrow> real" where
  "clamped_area b = (case b of (x1, y1, x2, y2) \<Rightarrow> max 0 (x2 - x1) * max 0 (y2 - y1))"

definition intersection_area :: "box \<Rightarrow> box \<Rightarrow> real" where
  "intersection_area boxA boxB =
     (case boxA of (a0, a1, a2, a3) \<Rightarrow>
      case boxB of (b0, b1, b2, b3) \<Rightarrow>
        max 0 (min a2 b2 - max a0 b0) * max 0 (min a3 b3 - max a1 b1))"

definition union_area :: "box \<Rightarrow> box \<Rightarrow> real" where
  "union_area boxA boxB = clamped_area boxA + clamped_area boxB - intersection_area boxA boxB"

subsection \<open>find_best_match\<close>

text \<open>
  The list comprehension over the known encodings: the first exception raised by
  \<open>cosine_distance\<close> ends it.
\<close>

fun distances_to :: "vec list \<Rightarrow> vec \<Rightarrow> error + real list" where
  "distances_to [] encoding = Inr []"
| "distances_to (k # ks) encoding =
     (case cosine_distance k encoding of
        Inl e \<Rightarrow> Inl e
      | Inr d \<Rightarrow> (case distances_to ks encoding of
                    Inl e \<Rightarrow> Inl e
                  | Inr ds \<Rightarrow> Inr (d # ds)))"

text \<open>
  \<^verbatim>\<open>np.argmin\<close>: the index of the first occurrence of the least element; it raises
  \<^verbatim>\<open>ValueError\<close> on an empty sequence.
\<close>

fun argmin :: "real list \<Rightarrow> error + nat" where
  "argmin [] = Inl ValueError"
| "argmin [x] = Inr 0"
| "argmin (x # y # ys) =
     (case argmin (y # ys) of
        Inl e \<Rightarrow> Inl e
      | Inr j \<Rightarrow> if x \<le> (y # ys) ! j then Inr 0 else Inr (Suc j))"

definition find_best_match :: "vec list \<Rightarrow> vec \<Rightarrow> real \<Rightarrow> error + nat option" where
  "find_best_match known_encodings encoding threshold =
     (if known_encodings = [] then Inr None
      else case distances_to known_encodings encoding of
             Inl e \<Rightarrow> Inl e
           | Inr distances \<Rightarrow>
               (case argmin distances of
                  Inl e \<Rightarrow> Inl e
                | Inr best_idx \<Rightarrow>
                    if distances ! best_idx \<le> threshold then Inr (Some best_idx)
                    else Inr None))"

text \<open>The default value of the parameter \<open>threshold\<close>.\<close>

definition default_threshold :: real where
  "default_threshold = 6 / 10"

section \<open>The state of the service\<close>

text \<open>
  The module-level cache \<^verbatim>\<open>temp_face_encoding_cache\<close> maps a temporary face id to
  an encoding or to \<^verbatim>\<open>None\<close>. The file system maps the location of every existing
  file or directory to what it holds: the two lists of a pickle written by
  \<open>save_known_faces\<close>, any other bytes (a photo, a crop, a file that cannot be
  unpickled), or a directory. The store, the uploaded photos, the crops and the sorted
  copies all live in this one file system, so a path that leads to the store's
  location reads and writes the store.
\<close>

datatype content = Pickle "vec list" "string list" | Bytes | Directory

record world =
  temp_face_encoding_cache :: "string \<rightharpoonup> vec option"
  fs :: "string \<rightharpoonup> content"

text \<open>
  What the face detector and the embedding network return for the uploaded image:
  the boxes of \<^verbatim>\<open>mtcnn.detect\<close> (\<open>None\<close> when it finds no face), the rows of
  \<^verbatim>\<open>resnet(faces_tensors)\<close> (the empty list when \<^verbatim>\<open>mtcnn(pil_image)\<close> is not a
  tensor), and the size of the image.
\<close>

record detection =
  det_boxes :: "box list option"
  det_embeddings :: "vec list"
  img_width :: int
  img_height :: int

text \<open>
  The outcome of writing a file: written, \<^verbatim>\<open>open\<close> raised and the file is as it
  was, or the write raised after \<^verbatim>\<open>open\<close> had truncated the file.
\<close>

datatype write_outcome = Written | OpenFailed | DumpFailed

text \<open>
  Everything the handlers obtain from outside the program: the working directory of
  the process (an absolute path), the outcome of writing the upload and the bytes the
  client sent, the outcome of detection (\<open>None\<close> when opening the image or the
  detector raises), which paths \<^verbatim>\<open>os.remove\<close> and the crop's \<^verbatim>\<open>save\<close>
  succeed on, the values of \<^verbatim>\<open>uuid.uuid4()\<close> in the order drawn, the outcome of
  writing the pickle file, which person folders can be made and copied into, and the
  order in which Python iterates over a set of names.
\<close>

record env =
  cwd :: string
  upload :: write_outcome
  upload_content :: content
  detect :: "detection option"
  remove_ok :: "string \<Rightarrow> bool"
  crop_save_ok :: "string \<Rightarrow> bool"
  uuid4 :: "nat \<Rightarrow> string"
  pickle_dump :: write_outcome
  copy_ok :: "string \<Rightarrow> bool"
  set_iter :: "string set \<Rightarrow> string list"

text \<open>The location a path of the program leads to, relative paths starting at \<open>cwd\<close>.\<close>

definition locate :: "env \<Rightarrow> string \<Rightarrow> string" where
  "locate e p = normpath (path_join (cwd e) p)"

text \<open>\<^verbatim>\<open>os.path.exists\<close>.\<close>

definition path_exists :: "env \<Rightarrow> world \<Rightarrow> string \<Rightarrow> bool" where
  "path_exists e w p \<longleftrightarrow> locate e p \<in> dom (fs w)"

text \<open>
  \<open>load_known_faces\<close>: the two lists of the pickle, and two empty lists when the file
  is absent or cannot be unpickled.
\<close>

definition load_known_faces :: "env \<Rightarrow> world \<Rightarrow> vec list \<times> string list" where
  "load_known_faces e w =
     (case fs w (locate e ENCODINGS_FILE) of
        Some (Pickle encs names) \<Rightarrow> (encs, names)
      | _ \<Rightarrow> ([], []))"

text \<open>The lists a reader of the pickle file finds, if it can be read.\<close>

definition encodings_file :: "env \<Rightarrow> world \<Rightarrow> (vec list \<times> string list) option" where
  "encodings_file e w =
     (case fs w (locate e ENCODINGS_FILE) of
        Some (Pickle encs names) \<Rightarrow> Some (encs, names)
      | _ \<Rightarrow> None)"

text \<open>
  \<open>save_known_faces\<close> rewrites the whole file. The encodings kept in the cache are
  lists of Python floats, which \<^verbatim>\<open>np.asarray(e).tolist()\<close> returns as they are.
\<close>

definition save_known_faces ::
  "write_outcome \<Rightarrow> env \<Rightarrow> vec list \<Rightarrow> string list \<Rightarrow> world \<Rightarrow> error option \<times> world" where
  "save_known_faces outcome e known_encodings known_names w =
     (let encs = map (\<lambda>enc. enc) known_encodings
      in case outcome of
           Written \<Rightarrow>
             (None, w\<lparr>fs := (fs w)(locate e ENCODINGS_FILE \<mapsto> Pickle encs known_names)\<rparr>)
         | OpenFailed \<Rightarrow> (Some OSError, w)
         | DumpFailed \<Rightarrow>
             (Some OSError, w\<lparr>fs := (fs w)(locate e ENCODINGS_FILE \<mapsto> Bytes)\<rparr>))"

text \<open>\<^verbatim>\<open>os.remove\<close> inside \<^verbatim>\<open>try ... except Exception: pass\<close>.\<close>

definition remove_quietly :: "env \<Rightarrow> string \<Rightarrow> world \<Rightarrow> world" where
  "remove_quietly e p w =
     (if path_exists e w p \<and> remove_ok e p
      then w\<lparr>fs := (fs w)(locate e p := None)\<rparr> else w)"

section \<open>process_photo\<close>


text \<open>The variables of the handler that the loop over the detected boxes updates.\<close>

record scan =
  identified_people :: "string set"
  unidentified_faces :: "(string \<times> string) list"
  seen_encodings :: "vec list"
  seen_boxes :: "ibox list"
  uuids_drawn :: nat
  scan_world :: world

text \<open>\<^verbatim>\<open>int(max(0, b))\<close> for each coordinate, then the clipping to the image.\<close>

definition clip_box :: "int \<Rightarrow> int \<Rightarrow> box \<Rightarrow> ibox" where
  "clip_box width height bx =
     (case bx of (b1, b2, b3, b4) \<Rightarrow>
        let x1 = \<lfloor>max 0 b1\<rfloor>;
            y1 = \<lfloor>max 0 b2\<rfloor>;
            x2 = \<lfloor>max 0 b3\<rfloor>;
            y2 = \<lfloor>max 0 b4\<rfloor>;
            x2 = min width x2;
            y2 = min height y2;
            x1 = max 0 x1;
            y1 = max 0 y1
        in (x1, y1, x2, y2))"

definition real_box :: "ibox \<Rightarrow> box" where
  "real_box b = (case b of (x1, y1, x2, y2) \<Rightarrow> (real_of_int x1, real_of_int y1, real_of_int x2, real_of_int y2))"

text \<open>
  The first deduplication loop: an exception of \<open>cosine_distance\<close> moves on to the next
  seen encoding, a distance below 0.08 ends the loop with \<open>is_duplicate = True\<close>.
\<close>

fun close_to_seen :: "vec list \<Rightarrow> vec \<Rightarrow> bool" where
  "close_to_seen [] encoding = False"
| "close_to_seen (se # ses) encoding =
     (case cosine_distance se encoding of
        Inl e \<Rightarrow> close_to_seen ses encoding
      | Inr d \<Rightarrow> if d < 8 / 100 then True else close_to_seen ses encoding)"

text \<open>The second loop, over the seen boxes.\<close>

fun overlaps_seen :: "ibox list \<Rightarrow> ibox \<Rightarrow> bool" where
  "overlaps_seen [] b = False"
| "overlaps_seen (sb # sbs) b =
     (if box_iou (real_box sb) (real_box b) > 6 / 10 then True else overlaps_seen sbs b)"

definition is_duplicate :: "vec list \<Rightarrow> ibox list \<Rightarrow> vec option \<Rightarrow> ibox \<Rightarrow> bool" where
  "is_duplicate seen_encs seen_bxs encoding b =
     (let dup = (case encoding of
                   None \<Rightarrow> False
                 | Some enc \<Rightarrow> seen_encs \<noteq> [] \<and> close_to_seen seen_encs enc)
      in if \<not> dup \<and> seen_bxs \<noteq> [] then overlaps_seen seen_bxs b else dup)"

text \<open>
  The part of the loop body after the duplicate test, for a face that no known
  encoding matched: a fresh id, the crop file, the cache entry and the records kept
  for deduplication.
\<close>

definition add_unidentified :: "env \<Rightarrow> vec option \<Rightarrow> ibox \<Rightarrow> scan \<Rightarrow> error + scan" where
  "add_unidentified e encoding b st =
     (let temp_id = uuid4 e (uuids_drawn st);
          st1 = st\<lparr>uuids_drawn := Suc (uuids_drawn st)\<rparr>;
          crop_filename = temp_id @ ''.jpg'';
          crop_path = path_join TEMP_CROP_DIR crop_filename
      in if \<not> crop_save_ok e crop_path then Inl OSError
         else
           let w = scan_world st1;
               w1 = w\<lparr>fs := (fs w)(locate e crop_path \<mapsto> Bytes)\<rparr>;
               w2 = w1\<lparr>temp_face_encoding_cache :=
                         (temp_face_encoding_cache w1)(temp_id \<mapsto> encoding)\<rparr>;
               st2 = (case encoding of
                        Some enc \<Rightarrow> st1\<lparr>seen_encodings := seen_encodings st1 @ [enc]\<rparr>
                      | None \<Rightarrow> st1)
           in Inr (st2\<lparr>scan_world := w2,
                       seen_boxes := seen_boxes st2 @ [b],
                       unidentified_faces := unidentified_faces st2 @
                         [(temp_id, ''/'' @ TEMP_CROP_DIR @ ''/'' @ crop_filename)]\<rparr>))"

text \<open>\<^verbatim>\<open>embeddings[idx] if len(embeddings) > idx else None\<close>.\<close>

definition detection_encoding :: "detection \<Rightarrow> nat \<Rightarrow> vec option" where
  "detection_encoding d idx =
     (if length (det_embeddings d) > idx then Some (det_embeddings d ! idx) else None)"

text \<open>One iteration of \<^verbatim>\<open>for idx, box in enumerate(boxes)\<close>.\<close>

definition process_detection ::
  "env \<Rightarrow> vec list \<Rightarrow> string list \<Rightarrow> detection \<Rightarrow> nat \<times> box \<Rightarrow> scan \<Rightarrow> error + scan" where
  "process_detection e known_encodings known_names d ib st =
     (case ib of (idx, bx) \<Rightarrow>
        let b = clip_box (img_width d) (img_height d) bx;
            encoding = detection_encoding d idx
        in if is_duplicate (seen_encodings st) (seen_boxes st) encoding b then Inr st
           else
             (case encoding of
                None \<Rightarrow> add_unidentified e encoding b st
              | Some enc \<Rightarrow>
                  if known_encodings = [] then add_unidentified e encoding b st
                  else
                    (case find_best_match known_encodings enc default_threshold of
                       Inl err \<Rightarrow> Inl err
                     | Inr None \<Rightarrow> add_unidentified e encoding b st
                     | Inr (Some match_idx) \<Rightarrow>
                         if match_idx < length known_names
                         then Inr (st\<lparr>identified_people :=
                                       insert (known_names ! match_idx) (identified_people st)\<rparr>)
                         else Inl IndexError)))"

text \<open>The loop: an exception leaves the loop with the state reached so far.\<close>

fun scan_faces ::
  "env \<Rightarrow> vec list \<Rightarrow> string list \<Rightarrow> detection \<Rightarrow> (nat \<times> box) list \<Rightarrow> scan \<Rightarrow> error option \<times> scan" where
  "scan_faces e ke kn d [] st = (None, st)"
| "scan_faces e ke kn d (ib # ibs) st =
     (case process_detection e ke kn d ib st of
        Inl err \<Rightarrow> (Some err, st)
      | Inr st' \<Rightarrow> scan_faces e ke kn d ibs st')"


section \<open>finalize_and_sort\<close>

record new_label =
  temp_id :: string
  name :: string

record finalize_sort_request =
  temp_photo_path :: string
  request_identified_people :: "string list"
  new_labels :: "new_label list"

text \<open>The variables that the loop over \<open>new_labels\<close> updates.\<close>

record learning =
  known_encodings :: "vec list"
  known_names :: "string list"
  all_names_in_photo :: "string set"
  cache :: "string \<rightharpoonup> vec option"

text \<open>One iteration of \<^verbatim>\<open>for label in request.new_labels\<close>.\<close>

definition learn_label :: "new_label \<Rightarrow> learning \<Rightarrow> learning" where
  "learn_label label st =
     (if name label = [] then st
      else
        let st1 = st\<lparr>all_names_in_photo := insert (name label) (all_names_in_photo st)\<rparr>
        in case cache st1 (temp_id label) of
             Some (Some enc) \<Rightarrow>
               st1\<lparr>known_encodings := known_encodings st1 @ [enc],
                   known_names := known_names st1 @ [name label],
                   cache := (cache st1)(temp_id label := None)\<rparr>
           | _ \<Rightarrow> st1)"

definition learn_new_faces :: "env \<Rightarrow> finalize_sort_request \<Rightarrow> world \<Rightarrow> learning" where
  "learn_new_faces e request w =
     (let (encs, names) = load_known_faces e w
      in fold learn_label (new_labels request)
           \<lparr>known_encodings = encs, known_names = names,
            all_names_in_photo = set (request_identified_people request),
            cache = temp_face_encoding_cache w\<rparr>)"

text \<open>
  Where \<^verbatim>\<open>shutil.copy(photo, person_folder)\<close> writes: the folder joined with the
  base name of the photo.
\<close>

definition copy_target :: "string \<Rightarrow> string \<Rightarrow> string" where
  "copy_target photo nm = path_join (path_join SORTED_PHOTOS_DIR nm) (basename photo)"

text \<open>
  The loop that copies the photo into one folder per name: \<^verbatim>\<open>os.makedirs\<close> with
  \<^verbatim>\<open>exist_ok=True\<close>, then \<^verbatim>\<open>shutil.copy\<close>. A failure of either is not caught;
  whether they fail is left to the environment. Of the directories that
  \<^verbatim>\<open>os.makedirs\<close> creates the file system records the folder itself.
\<close>

fun sort_photo :: "env \<Rightarrow> string \<Rightarrow> string list \<Rightarrow> world \<Rightarrow> error option \<times> world" where
  "sort_photo e photo [] w = (None, w)"
| "sort_photo e photo (nm # nms) w =
     (let person_folder = path_join SORTED_PHOTOS_DIR nm
      in if \<not> copy_ok e person_folder then (Some OSError, w)
         else
           let w1 = (if path_exists e w person_folder then w
                     else w\<lparr>fs := (fs w)(locate e person_folder \<mapsto> Directory)\<rparr>)
           in case fs w1 (locate e photo) of
                None \<Rightarrow> (Some OSError, w1)
              | Some c \<Rightarrow>
                  sort_photo e photo nms
                    (w1\<lparr>fs := (fs w1)(locate e (copy_target photo nm) \<mapsto> c)\<rparr>))"

text \<open>The clean-up of the crops, one iteration per label.\<close>

definition remove_crop :: "env \<Rightarrow> new_label \<Rightarrow> world \<Rightarrow> world" where
  "remove_crop e label w =
     (let crop_path = path_join TEMP_CROP_DIR (temp_id label @ ''.jpg'')
      in if path_exists e w crop_path then remove_quietly e crop_path w else w)"

definition success_message :: "string list \<Rightarrow> string" where
  "success_message names = ''Photo sorted successfully for '' @ join '', '' names"

text \<open>
  The handler. The existence test on the photo comes after the store has been
  written, and the clean-up removes whatever the photo's path leads to.
\<close>

definition finalize_and_sort ::
  "env \<Rightarrow> finalize_sort_request \<Rightarrow> world \<Rightarrow> (error + string) \<times> world" where
  "finalize_and_sort e request w =
     (let st = learn_new_faces e request w;
          w1 = w\<lparr>temp_face_encoding_cache := cache st\<rparr>
      in case save_known_faces (pickle_dump e) e (known_encodings st) (known_names st) w1 of
           (Some err, w2) \<Rightarrow> (Inl err, w2)
         | (None, w2) \<Rightarrow>
             if \<not> path_exists e w2 (temp_photo_path request)
             then (Inl (HTTPException 404), w2)
             else
               (case sort_photo e (temp_photo_path request)
                       (set_iter e (all_names_in_photo st)) w2 of
                  (Some err, w3) \<Rightarrow> (Inl err, w3)
                | (None, w3) \<Rightarrow>
                    let w4 = remove_quietly e (temp_photo_path request) w3;
                        w5 = fold (remove_crop e) (new_labels request) w4
                    in (Inr (success_message (set_iter e (all_names_in_photo st))), w5)))"

section \<open>A concrete run\<close>

text \<open>
  An environment in which the process runs in \<^verbatim>\<open>/srv\<close> and every \<^verbatim>\<open>os.remove\<close>
  fails, a world with one known face, one cached encoding and one uploaded photo, and
  a request that labels the cached face. They instantiate the theorems below.
\<close>

definition example_detection :: detection where
  "example_detection =
     \<lparr>det_boxes = Some [(10, 10, 50, 50), (12, 12, 50, 50), (100, 100, 140, 140)],
      det_embeddings = [[1, 0], [0, 1], [1, 0]],
      img_width = 200, img_height = 200\<rparr>"

definition example_env :: env where
  "example_env =
     \<lparr>cwd = ''/srv'',
      upload = Written,
      upload_content = Bytes,
      detect = Some example_detection,
      remove_ok = (\<lambda>p. False),
      crop_save_ok = (\<lambda>p. True),
      uuid4 = (\<lambda>n. if n = 0 then ''u0'' else ''u1''),
      pickle_dump = Written,
      copy_ok = (\<lambda>p. True),
      set_iter = (\<lambda>S. filter (\<lambda>x. x \<in> S) [''ann'', ''bob''])\<rparr>"

definition example_world :: world where
  "example_world =
     \<lparr>temp_face_encoding_cache = [''u0'' \<mapsto> Some [1, 0]],
      fs = [''/srv'' \<mapsto> Directory,
            ''/srv/temp_uploads'' \<mapsto> Directory,
            ''/srv/temp_crops'' \<mapsto> Directory,
            ''/srv/sorted_photos'' \<mapsto> Directory,
            ''/srv/face_encodings.pickle'' \<mapsto> Pickle [[0, 1]] [''ann''],
            ''/srv/temp_uploads/p.jpg'' \<mapsto> Bytes,
            ''/srv/temp_crops/u0.jpg'' \<mapsto> Bytes]\<rparr>"

text \<open>
  The loop state of \<open>process_photo\<close> after the first of the three detections: one
  unidentified face, its encoding and its box recorded.
\<close>

definition example_scan :: scan where
  "example_scan =
     \<lparr>identified_people = {},
      unidentified_faces = [(''u0'', ''/temp_crops/u0.jpg'')],
      seen_encodings = [[1, 0]],
      seen_boxes = [(10, 10, 50, 50)],
      uuids_drawn = 1,
      scan_world = example_world\<rparr>"

definition example_request :: finalize_sort_request where
  "example_request =
     \<lparr>temp_photo_path = ''temp_uploads/p.jpg'',
      request_identified_people = [''ann''],
      new_labels = [\<lparr>temp_id = ''u0'', name = ''bob''\<rparr>]\<rparr>"


section \<open>Properties of the helper functions\<close>

subsection \<open>Rounding\<close>

lemma rne_of_int: "rne (of_int n) = n"
  by (simp add: rne_def)


lemma fl_zero: "fl 0 = 0"
  by (simp add: fl_def)

lemma floor_log2_int_le:
  assumes "m \<noteq> 0" "\<bar>m\<bar> < 2 ^ 53"
  shows "\<lfloor>log 2 \<bar>real_of_int m\<bar>\<rfloor> \<le> 52"
proof -
  have pos: "0 < \<bar>real_of_int m\<bar>" using assms(1) by simp
  have "\<bar>real_of_int m\<bar> < 2 ^ 53" using assms(2)
    by (metis of_int_abs of_int_less_numeral_power_cancel_iff)
  then have "\<bar>real_of_int m\<bar> < 2 powr 53" by simp
  then have "log 2 \<bar>real_of_int m\<bar> < 53" using pos by (simp only: log_less_iff)
  then have "\<lfloor>log 2 \<bar>real_of_int m\<bar>\<rfloor> < 53" by linarith
  then show ?thesis by simp
qed

lemma fl_representable:
  assumes "\<bar>m\<bar> < 2 ^ 53" and "- 1074 \<le> e"
  shows "fl (of_int m * 2 powr of_int e) = of_int m * 2 powr of_int e"
proof (cases "m = 0")
  case True
  then show ?thesis by (simp add: fl_zero)
next
  case False
  let ?x = "of_int m * 2 powr of_int e :: real"
  have x0: "?x \<noteq> 0" using False by simp
  have "log 2 \<bar>?x\<bar> = log 2 \<bar>real_of_int m\<bar> + of_int e"
    using False by (simp add: abs_mult log_mult)
  then have L: "\<lfloor>log 2 \<bar>?x\<bar>\<rfloor> = \<lfloor>log 2 \<bar>real_of_int m\<bar>\<rfloor> + e"
    by simp
  define E where "E = max (\<lfloor>log 2 \<bar>?x\<bar>\<rfloor> - 52) (- 1074)"
  have Ee: "E \<le> e"
    unfolding E_def L using floor_log2_int_le [OF False assms(1)] assms(2) by simp
  then obtain n :: nat where n: "e - E = int n"
    by (metis diff_ge_0_iff_ge nonneg_int_cases)
  have "?x / 2 powr of_int E = of_int m * 2 powr (of_int e - of_int E)"
    by (simp add: powr_diff)
  also have "\<dots> = of_int m * 2 powr (real n)"
    using n by (metis of_int_diff of_int_of_nat_eq)
  also have "\<dots> = of_int (m * 2 ^ n)"
    by (simp add: powr_realpow)
  finally have q: "?x / 2 powr of_int E = of_int (m * 2 ^ n)" .
  have "fl ?x = of_int (rne (?x / 2 powr of_int E)) * 2 powr of_int E"
    using x0 unfolding fl_def E_def Let_def by simp
  also have "\<dots> = (?x / 2 powr of_int E) * 2 powr of_int E"
    unfolding q rne_of_int ..
  also have "\<dots> = ?x" by simp
  finally show ?thesis .
qed

lemma fl_of_int:
  assumes "\<bar>m\<bar> < 2 ^ 53"
  shows "fl (of_int m) = of_int m"
  using fl_representable [OF assms, of 0] by simp


lemma fl_numeral [simp]:
  "fl 1 = 1" "fl 5 = 5" "fl 25 = 25" "fl 26 = 26" "fl 0 = 0"
  using fl_of_int [of 1] fl_of_int [of 5] fl_of_int [of 25] fl_of_int [of 26] fl_zero
  by simp_all

subsection \<open>The exact cosine distance\<close>







subsection \<open>cosine_distance\<close>

lemma dot_acc_commute: "dot_acc s a b = dot_acc s b a"
proof (induction a arbitrary: s b)
  case Nil
  then show ?case by (cases b) simp_all
next
  case (Cons x xs)
  then show ?case by (cases b) (simp_all add: mult.commute)
qed

lemma np_dot_commute: "np_dot a b = np_dot b a"
  unfolding np_dot_def using dot_acc_commute [of 0 a b] by auto

text \<open>
  Claim C7: for every pair of vectors \<open>a\<close> and \<open>b\<close>, \<open>cosine_distance a b\<close> equals
  \<open>cosine_distance b a\<close>: the same value when a value is returned, the same exception
  when the shapes of the two arrays do not agree.
\<close>

theorem cosine_distance_symmetric: "cosine_distance a b = cosine_distance b a"
  unfolding cosine_distance_def Let_def np_dot_commute [of "np_array a" "np_array b"]
  by (simp only: mult.commute [of "linalg_norm (np_array a)" "linalg_norm (np_array b)"])





lemma cosine_distance_returns:
  assumes "length a = length b"
  shows "\<exists>d. cosine_distance a b = Inr d"
  using assms by (simp add: cosine_distance_def np_dot_def np_array_def Let_def)

text \<open>
  Vectors of different lengths whose computed norm product is not zero make
  \<^verbatim>\<open>np.dot\<close> raise.
\<close>

lemma cosine_distance_mismatch:
  "length a \<noteq> length b \<Longrightarrow> fl (linalg_norm (np_array a) * linalg_norm (np_array b)) \<noteq> 0 \<Longrightarrow>
   cosine_distance a b = Inl ValueError"
  by (simp add: cosine_distance_def Let_def np_dot_def np_array_def)

text \<open>The distances of the unit vectors used in the examples: every step is exact.\<close>

lemma cosine_distance_units:
  "cosine_distance [1, 0] [0, 1] = Inr 1"
  "cosine_distance [0, 1] [1, 0] = Inr 1"
  "cosine_distance [1, 0] [1, 0] = Inr 0"
  "cosine_distance [0, 1] [0, 1] = Inr 0"
  by (simp_all add: cosine_distance_def np_array_def linalg_norm_def np_dot_def Let_def)









subsection \<open>box_iou\<close>

lemma inter_le_area:
  fixes a0 a1 a2 a3 b0 b1 b2 b3 :: real
  shows "max 0 (min a2 b2 - max a0 b0) * max 0 (min a3 b3 - max a1 b1)
         \<le> max 0 (a2 - a0) * max 0 (a3 - a1)"
  by (rule mult_mono) auto

lemma inter_le_area':
  fixes a0 a1 a2 a3 b0 b1 b2 b3 :: real
  shows "max 0 (min a2 b2 - max a0 b0) * max 0 (min a3 b3 - max a1 b1)
         \<le> max 0 (b2 - b0) * max 0 (b3 - b1)"
  by (rule mult_mono) auto

lemma intersection_area_nonneg: "0 \<le> intersection_area A B"
proof -
  obtain a0 a1 a2 a3 where A: "A = (a0, a1, a2, a3)" by (cases A) auto
  obtain b0 b1 b2 b3 where B: "B = (b0, b1, b2, b3)" by (cases B) auto
  show ?thesis unfolding A B intersection_area_def by simp
qed

lemma intersection_le_left: "intersection_area A B \<le> clamped_area A"
proof -
  obtain a0 a1 a2 a3 where A: "A = (a0, a1, a2, a3)" by (cases A) auto
  obtain b0 b1 b2 b3 where B: "B = (b0, b1, b2, b3)" by (cases B) auto
  show ?thesis
    unfolding A B intersection_area_def clamped_area_def
    using inter_le_area [of a2 b2 a0 b0 a3 b3 a1] by simp
qed

lemma intersection_le_right: "intersection_area A B \<le> clamped_area B"
proof -
  obtain a0 a1 a2 a3 where A: "A = (a0, a1, a2, a3)" by (cases A) auto
  obtain b0 b1 b2 b3 where B: "B = (b0, b1, b2, b3)" by (cases B) auto
  show ?thesis
    unfolding A B intersection_area_def clamped_area_def
    using inter_le_area' [of a2 b2 a0 b0 a3 b3 a1] by simp
qed

lemma box_iou_alt:
  "box_iou A B = (if union_area A B \<le> 0 then 0 else intersection_area A B / union_area A B)"
proof -
  obtain a0 a1 a2 a3 where A: "A = (a0, a1, a2, a3)" by (cases A) auto
  obtain b0 b1 b2 b3 where B: "B = (b0, b1, b2, b3)" by (cases B) auto
  show ?thesis
    unfolding A B box_iou_def union_area_def intersection_area_def clamped_area_def Let_def
    by (simp only: prod.case)
qed

text \<open>
  Claim C6: for every pair of boxes \<^verbatim>\<open>[x1, y1, x2, y2]\<close>, \<open>box_iou\<close> returns a value
  in the interval from 0 to 1. It returns 0 whenever the union area (the sum of the two
  clamped box areas minus the intersection area) is not positive, and otherwise the
  ratio of the intersection area to the union area.
\<close>

theorem box_iou_bounds:
  "0 \<le> box_iou A B \<and> box_iou A B \<le> 1 \<and>
   (union_area A B \<le> 0 \<longrightarrow> box_iou A B = 0) \<and>
   (0 < union_area A B \<longrightarrow> box_iou A B = intersection_area A B / union_area A B)"
proof -
  have i: "0 \<le> intersection_area A B" by (rule intersection_area_nonneg)
  have "intersection_area A B \<le> clamped_area A" by (rule intersection_le_left)
  moreover have "intersection_area A B \<le> clamped_area B" by (rule intersection_le_right)
  ultimately have u: "intersection_area A B \<le> union_area A B"
    by (simp add: union_area_def)
  show ?thesis using i u by (simp add: box_iou_alt)
qed

theorem box_iou_bounds_witness:
  "box_iou (0, 0, 2, 2) (1, 1, 3, 3) = 1 / 7 \<and> box_iou (0, 0, 0, 5) (3, 3, 3, 3) = 0"
  using box_iou_bounds [of "(0, 0, 2, 2)" "(1, 1, 3, 3)"]
        box_iou_bounds [of "(0, 0, 0, 5)" "(3, 3, 3, 3)"]
  by (simp add: union_area_def clamped_area_def intersection_area_def)

subsection \<open>find_best_match\<close>

lemma distances_to_returns:
  assumes "\<forall>k\<in>set ks. length k = length q"
  shows "\<exists>ds. distances_to ks q = Inr ds \<and> length ds = length ks \<and>
              (\<forall>i<length ks. cosine_distance (ks ! i) q = Inr (ds ! i))"
  using assms
proof (induction ks)
  case Nil
  then show ?case by simp
next
  case (Cons k ks)
  then obtain ds where ds: "distances_to ks q = Inr ds" "length ds = length ks"
      "\<forall>i<length ks. cosine_distance (ks ! i) q = Inr (ds ! i)"
    by auto
  from Cons.prems obtain d where d: "cosine_distance k q = Inr d"
    using cosine_distance_returns [of k q] by auto
  have "\<forall>i<length (k # ks). cosine_distance ((k # ks) ! i) q = Inr ((d # ds) ! i)"
    using d ds(3) by (auto simp: nth_Cons split: nat.splits)
  then show ?case using d ds by simp
qed

lemma argmin_least:
  assumes "xs \<noteq> []"
  shows "\<exists>j. argmin xs = Inr j \<and> j < length xs \<and> (\<forall>i<length xs. xs ! j \<le> xs ! i)"
  using assms
proof (induction xs rule: argmin.induct)
  case 1
  then show ?case by simp
next
  case (2 x)
  then show ?case by simp
next
  case (3 x y ys)
  then obtain j where j: "argmin (y # ys) = Inr j" "j < length (y # ys)"
      "\<forall>i<length (y # ys). (y # ys) ! j \<le> (y # ys) ! i"
    by auto
  show ?case
  proof (cases "x \<le> (y # ys) ! j")
    case True
    have "\<forall>i<length (x # y # ys). (x # y # ys) ! 0 \<le> (x # y # ys) ! i"
    proof (intro allI impI)
      fix i assume "i < length (x # y # ys)"
      then show "(x # y # ys) ! 0 \<le> (x # y # ys) ! i"
        using True j(3) by (cases i) (auto intro: order_trans)
    qed
    then show ?thesis using True j(1) by simp
  next
    case False
    have "\<forall>i<length (x # y # ys). (x # y # ys) ! Suc j \<le> (x # y # ys) ! i"
    proof (intro allI impI)
      fix i assume "i < length (x # y # ys)"
      then show "(x # y # ys) ! Suc j \<le> (x # y # ys) ! i"
        using False j(3) by (cases i) auto
    qed
    then show ?thesis using False j(1) j(2) by simp
  qed
qed

text \<open>
  Claim C1: for a list of known encodings and a query encoding, all of one length,
  \<open>find_best_match\<close> with its default threshold 0.6 returns the index of a known
  encoding whose cosine distance to the query is least over the list whenever that
  least distance is at most 0.6, and returns \<open>None\<close> when the list is empty or the
  least distance exceeds 0.6.
\<close>

theorem find_best_match_nearest:
  assumes "\<forall>k\<in>set known. length k = length q"
  shows "(known = [] \<longrightarrow> find_best_match known q default_threshold = Inr None) \<and>
         ((\<exists>k\<in>set known. \<exists>d. cosine_distance k q = Inr d \<and> d \<le> 6 / 10) \<longrightarrow>
            (\<exists>i<length known. \<exists>d.
               find_best_match known q default_threshold = Inr (Some i) \<and>
               cosine_distance (known ! i) q = Inr d \<and> d \<le> 6 / 10 \<and>
               (\<forall>k\<in>set known. \<forall>d'. cosine_distance k q = Inr d' \<longrightarrow> d \<le> d'))) \<and>
         ((\<forall>k\<in>set known. \<forall>d. cosine_distance k q = Inr d \<longrightarrow> 6 / 10 < d) \<longrightarrow>
            find_best_match known q default_threshold = Inr None)"
proof (cases "known = []")
  case True
  then show ?thesis by (simp add: find_best_match_def)
next
  case False
  obtain ds where ds: "distances_to known q = Inr ds" "length ds = length known"
      "\<forall>i<length known. cosine_distance (known ! i) q = Inr (ds ! i)"
    using distances_to_returns [OF assms] by auto
  have "ds \<noteq> []" using False ds(2) by auto
  then obtain j where j: "argmin ds = Inr j" "j < length ds" "\<forall>i<length ds. ds ! j \<le> ds ! i"
    using argmin_least by blast
  have fbm: "find_best_match known q default_threshold =
               (if ds ! j \<le> 6 / 10 then Inr (Some j) else Inr None)"
    using False ds(1) j(1) by (simp add: find_best_match_def default_threshold_def)
  have least: "ds ! j \<le> d'" if "k \<in> set known" "cosine_distance k q = Inr d'" for k d'
  proof -
    from that(1) obtain i where i: "i < length known" "known ! i = k"
      by (auto simp: in_set_conv_nth)
    then have "d' = ds ! i" using ds(3) that(2) by auto
    then show ?thesis using j(3) i(1) ds(2) by simp
  qed
  have jk: "known ! j \<in> set known" "cosine_distance (known ! j) q = Inr (ds ! j)"
    using j(2) ds(2) ds(3) by auto
  have A: "\<exists>i<length known. \<exists>d.
               find_best_match known q default_threshold = Inr (Some i) \<and>
               cosine_distance (known ! i) q = Inr d \<and> d \<le> 6 / 10 \<and>
               (\<forall>k\<in>set known. \<forall>d'. cosine_distance k q = Inr d' \<longrightarrow> d \<le> d')"
    if "\<exists>k\<in>set known. \<exists>d. cosine_distance k q = Inr d \<and> d \<le> 6 / 10"
  proof -
    from that obtain k d where "k \<in> set known" "cosine_distance k q = Inr d" "d \<le> 6 / 10"
      by auto
    then have le: "ds ! j \<le> 6 / 10" using least [of k d] by linarith
    show ?thesis
      using le fbm jk(2) j(2) ds(2) least by (intro exI [of _ j] exI [of _ "ds ! j"]) auto
  qed
  have B: "find_best_match known q default_threshold = Inr None"
    if "\<forall>k\<in>set known. \<forall>d. cosine_distance k q = Inr d \<longrightarrow> 6 / 10 < d"
    using that jk fbm by auto
  show ?thesis using False A B by blast
qed


theorem find_best_match_nearest_witness:
  "length [0, 1 :: real] = length [1, 0 :: real] \<and>
   find_best_match [[0, 1], [1, 0], [1, 0]] [1, 0] default_threshold = Inr (Some 1) \<and>
   find_best_match [[0, 1]] [1, 0] default_threshold = Inr None \<and>
   find_best_match [] [1, 0] default_threshold = Inr None"
  using find_best_match_nearest [of "[[0, 1], [1, 0], [1, 0]]" "[1, 0]"]
        find_best_match_nearest [of "[[0, 1]]" "[1, 0]"]
        find_best_match_nearest [of "[]" "[1, 0]"]
  by (simp add: find_best_match_def default_threshold_def cosine_distance_units)

section \<open>Properties of the endpoints\<close>

subsection \<open>Paths\<close>

lemma split_path_nonempty: "split_path p \<noteq> []"
  by (induction p) (auto split: list.splits)

lemma split_path_last:
  assumes "p \<noteq> []" and "last p \<noteq> CHR ''/''"
  shows "last (split_path p) \<noteq> [] \<and> last (last (split_path p)) = last p"
  using assms
proof (induction p)
  case Nil
  then show ?case by simp
next
  case (Cons c cs)
  show ?case
  proof (cases "cs = []")
    case True
    then show ?thesis using Cons.prems by simp
  next
    case False
    then have l: "last (c # cs) = last cs" by simp
    with Cons.prems have "last cs \<noteq> CHR ''/''" by simp
    with Cons.IH False have IH: "last (split_path cs) \<noteq> []"
        "last (last (split_path cs)) = last cs" by auto
    obtain x xs where sp: "split_path cs = x # xs"
      using split_path_nonempty [of cs] by (cases "split_path cs") auto
    show ?thesis
    proof (cases "c = CHR ''/''")
      case True
      then show ?thesis using IH sp l by simp
    next
      case False
      then show ?thesis using IH sp l by (cases "xs = []") auto
    qed
  qed
qed

lemma walk_append: "walk st (xs @ ys) = walk (walk st xs) ys"
  by (induction xs arbitrary: st) simp_all

lemma normpath_last:
  assumes "p \<noteq> []" and "last p \<noteq> CHR ''/''" and "last p \<noteq> CHR ''.''"
  shows "normpath p \<noteq> [] \<and> last (normpath p) = last p"
proof -
  let ?c = "last (split_path p)"
  have c: "?c \<noteq> []" "last ?c = last p"
    using split_path_last [OF assms(1,2)] by auto
  have "?c \<noteq> ''.''" "?c \<noteq> ''..''"
    using c(2) assms(3) by auto
  have sp: "split_path p = butlast (split_path p) @ [?c]"
    using split_path_nonempty [of p] by simp
  have "walk [] (split_path p) = walk (walk [] (butlast (split_path p))) [?c]"
    by (subst sp) (rule walk_append)
  also have "\<dots> = ?c # walk [] (butlast (split_path p))"
    using c(1) \<open>?c \<noteq> ''.''\<close> \<open>?c \<noteq> ''..''\<close> by simp
  finally have "normpath p =
      concat (map (\<lambda>c. CHR ''/'' # c) (rev (walk [] (butlast (split_path p))))) @ (CHR ''/'' # ?c)"
    by (simp add: normpath_def)
  then show ?thesis using c by simp
qed

lemma path_join_last:
  assumes "b \<noteq> []"
  shows "path_join a b \<noteq> [] \<and> last (path_join a b) = last b"
  using assms by (simp add: path_join_def)

lemma locate_last:
  assumes "p \<noteq> []" and "last p \<noteq> CHR ''/''" and "last p \<noteq> CHR ''.''"
  shows "last (locate e p) = last p"
  using path_join_last [OF assms(1), of "cwd e"] assms normpath_last [of "path_join (cwd e) p"]
  by (simp add: locate_def)

text \<open>The path of a crop ends in \<^verbatim>\<open>.jpg\<close>: it never leads to the store.\<close>

lemma crop_not_store:
  "locate e (path_join TEMP_CROP_DIR (t @ ''.jpg'')) \<noteq> locate e ENCODINGS_FILE"
proof -
  have "last (path_join TEMP_CROP_DIR (t @ ''.jpg'')) = CHR ''g''"
       "path_join TEMP_CROP_DIR (t @ ''.jpg'') \<noteq> []"
    using path_join_last [of "t @ ''.jpg''" TEMP_CROP_DIR] by simp_all
  then have "last (locate e (path_join TEMP_CROP_DIR (t @ ''.jpg''))) = CHR ''g''"
    using locate_last [of "path_join TEMP_CROP_DIR (t @ ''.jpg'')" e] by simp
  moreover have "last (locate e ENCODINGS_FILE) = CHR ''e''"
    using locate_last [of ENCODINGS_FILE e] by (simp add: ENCODINGS_FILE_def)
  ultimately show ?thesis by auto
qed

text \<open>The locations of the example, and two paths that lead to the store.\<close>

lemma example_locations:
  "locate example_env ENCODINGS_FILE = ''/srv/face_encodings.pickle''"
  "locate example_env ''temp_uploads/p.jpg'' = ''/srv/temp_uploads/p.jpg''"
  "locate example_env ''temp_uploads/q.jpg'' = ''/srv/temp_uploads/q.jpg''"
  "locate example_env ''temp_uploads/gone.jpg'' = ''/srv/temp_uploads/gone.jpg''"
  "locate example_env ''temp_crops/u0.jpg'' = ''/srv/temp_crops/u0.jpg''"
  "locate example_env ''face_encodings.pickle'' = ''/srv/face_encodings.pickle''"
  "locate example_env ''temp_uploads/../face_encodings.pickle'' = ''/srv/face_encodings.pickle''"
  by (simp_all add: locate_def normpath_def path_join_def example_env_def ENCODINGS_FILE_def)

subsection \<open>The learning loop\<close>

lemma learn_label_blank: "name label = [] \<Longrightarrow> learn_label label st = st"
  by (simp add: learn_label_def)

lemma learn_label_lockstep:
  "(known_encodings (learn_label label st) = known_encodings st \<and>
    known_names (learn_label label st) = known_names st) \<or>
   (\<exists>enc. cache st (temp_id label) = Some (Some enc) \<and> name label \<noteq> [] \<and>
      known_encodings (learn_label label st) = known_encodings st @ [enc] \<and>
      known_names (learn_label label st) = known_names st @ [name label])"
  by (simp add: learn_label_def Let_def split: option.splits)

lemma learn_label_lengths:
  assumes "length (known_encodings st) = length (known_names st)"
  shows "length (known_encodings (learn_label label st)) = length (known_names (learn_label label st))"
  using assms learn_label_lockstep [of label st] by auto

lemma fold_learn_label_lengths:
  "length (known_encodings st) = length (known_names st) \<Longrightarrow>
   length (known_encodings (fold learn_label labels st)) =
   length (known_names (fold learn_label labels st))"
  by (induction labels arbitrary: st) (simp_all add: learn_label_lengths)

lemma learn_new_faces_lengths:
  assumes "load_known_faces e w = (encs, names)" "length encs = length names"
  shows "length (known_encodings (learn_new_faces e r w)) = length (known_names (learn_new_faces e r w))"
  unfolding learn_new_faces_def using assms by (simp add: fold_learn_label_lengths)

lemma learn_new_faces_remove_ok:
  "learn_new_faces (e\<lparr>remove_ok := f\<rparr>) r w = learn_new_faces e r w"
  by (simp add: learn_new_faces_def load_known_faces_def locate_def)

subsection \<open>What the steps of finalize_and_sort leave alone\<close>

lemma remove_quietly_cache:
  "temp_face_encoding_cache (remove_quietly e p w) = temp_face_encoding_cache w"
  by (simp add: remove_quietly_def)

lemma remove_quietly_other:
  "x \<noteq> locate e p \<Longrightarrow> fs (remove_quietly e p w) x = fs w x"
  by (simp add: remove_quietly_def)

lemma remove_quietly_at:
  "fs (remove_quietly e p w) x = fs w x \<or> fs (remove_quietly e p w) x = None"
  by (simp add: remove_quietly_def)

lemma remove_crop_cache:
  "temp_face_encoding_cache (remove_crop e l w) = temp_face_encoding_cache w"
  by (simp add: remove_crop_def Let_def remove_quietly_cache)

lemma remove_crop_store:
  "fs (remove_crop e l w) (locate e ENCODINGS_FILE) = fs w (locate e ENCODINGS_FILE)"
  using crop_not_store [of e "temp_id l"]
  by (simp add: remove_crop_def Let_def remove_quietly_other)

lemma fold_remove_crop_cache:
  "temp_face_encoding_cache (fold (remove_crop e) ls w) = temp_face_encoding_cache w"
  by (induction ls arbitrary: w) (simp_all add: remove_crop_cache)

lemma fold_remove_crop_store:
  "fs (fold (remove_crop e) ls w) (locate e ENCODINGS_FILE) = fs w (locate e ENCODINGS_FILE)"
  by (induction ls arbitrary: w) (simp_all add: remove_crop_store)

lemma sort_photo_cache:
  "temp_face_encoding_cache (snd (sort_photo e p nms w)) = temp_face_encoding_cache w"
  by (induction nms arbitrary: w) (simp_all add: Let_def split: option.splits)

lemma sort_photo_keeps:
  assumes "fs w x = Some c" and "\<forall>nm\<in>set nms. locate e (copy_target p nm) \<noteq> x"
  shows "fs (snd (sort_photo e p nms w)) x = Some c"
  using assms
proof (induction nms arbitrary: w)
  case Nil
  then show ?case by simp
next
  case (Cons nm nms)
  let ?folder = "path_join SORTED_PHOTOS_DIR nm"
  let ?w1 = "if path_exists e w ?folder then w
             else w\<lparr>fs := (fs w)(locate e ?folder \<mapsto> Directory)\<rparr>"
  have w1: "fs ?w1 x = Some c"
    using Cons.prems(1) by (auto simp: path_exists_def)
  show ?case
  proof (cases "copy_ok e ?folder")
    case False
    then show ?thesis using Cons.prems(1) by simp
  next
    case True
    show ?thesis
    proof (cases "fs ?w1 (locate e p)")
      case None
      then show ?thesis using True w1 by (simp add: Let_def)
    next
      case (Some c')
      let ?w2 = "?w1\<lparr>fs := (fs ?w1)(locate e (copy_target p nm) \<mapsto> c')\<rparr>"
      have "fs ?w2 x = Some c" using w1 Cons.prems(2) by auto
      then have "fs (snd (sort_photo e p nms ?w2)) x = Some c"
        using Cons.prems(2) by (intro Cons.IH) simp_all
      then show ?thesis using True Some by (simp add: Let_def)
    qed
  qed
qed

lemma sort_photo_remove_ok:
  "sort_photo (e\<lparr>remove_ok := f\<rparr>) p nms w = sort_photo e p nms w"
  by (induction nms arbitrary: w)
     (simp_all add: Let_def path_exists_def locate_def split: option.splits)

lemma sort_photo_succeeds:
  assumes "path_exists e w p" and "\<forall>nm\<in>set nms. copy_ok e (path_join SORTED_PHOTOS_DIR nm)"
  shows "fst (sort_photo e p nms w) = None"
  using assms
proof (induction nms arbitrary: w)
  case Nil
  then show ?case by simp
next
  case (Cons nm nms)
  let ?folder = "path_join SORTED_PHOTOS_DIR nm"
  let ?w1 = "if path_exists e w ?folder then w
             else w\<lparr>fs := (fs w)(locate e ?folder \<mapsto> Directory)\<rparr>"
  have "path_exists e ?w1 p" using Cons.prems(1) by (auto simp: path_exists_def)
  then obtain c where c: "fs ?w1 (locate e p) = Some c"
    by (auto simp: path_exists_def)
  let ?w2 = "?w1\<lparr>fs := (fs ?w1)(locate e (copy_target p nm) \<mapsto> c)\<rparr>"
  have "path_exists e ?w2 p" using c by (auto simp: path_exists_def split: if_splits)
  then have "fst (sort_photo e p nms ?w2) = None"
    using Cons.prems(2) by (intro Cons.IH) simp_all
  then show ?case using Cons.prems(2) c by (simp add: Let_def)
qed

subsection \<open>finalize_and_sort, path by path\<close>

lemma finalize_open_failed:
  assumes "pickle_dump e = OpenFailed"
  shows "finalize_and_sort e r w =
           (Inl OSError, w\<lparr>temp_face_encoding_cache := cache (learn_new_faces e r w)\<rparr>)"
  using assms by (simp add: finalize_and_sort_def save_known_faces_def Let_def)

lemma finalize_dump_failed:
  assumes "pickle_dump e = DumpFailed"
  shows "finalize_and_sort e r w =
           (Inl OSError,
            w\<lparr>temp_face_encoding_cache := cache (learn_new_faces e r w),
              fs := (fs w)(locate e ENCODINGS_FILE \<mapsto> Bytes)\<rparr>)"
  using assms by (simp add: finalize_and_sort_def save_known_faces_def Let_def)

lemma finalize_written:
  assumes "pickle_dump e = Written"
    and "st = learn_new_faces e r w"
    and "w2 = w\<lparr>temp_face_encoding_cache := cache st,
                 fs := (fs w)(locate e ENCODINGS_FILE \<mapsto>
                          Pickle (known_encodings st) (known_names st))\<rparr>"
  shows "finalize_and_sort e r w =
           (if \<not> path_exists e w2 (temp_photo_path r) then (Inl (HTTPException 404), w2)
            else case sort_photo e (temp_photo_path r) (set_iter e (all_names_in_photo st)) w2 of
                   (Some err, w3) \<Rightarrow> (Inl err, w3)
                 | (None, w3) \<Rightarrow>
                     (Inr (success_message (set_iter e (all_names_in_photo st))),
                      fold (remove_crop e) (new_labels r)
                        (remove_quietly e (temp_photo_path r) w3)))"
  using assms
  by (auto simp: finalize_and_sort_def save_known_faces_def Let_def
        split: prod.splits option.splits)

lemma finalize_cache:
  "temp_face_encoding_cache (snd (finalize_and_sort e r w)) = cache (learn_new_faces e r w)"
proof (cases "pickle_dump e")
  case Written
  define st where "st = learn_new_faces e r w"
  define w2 where "w2 = w\<lparr>temp_face_encoding_cache := cache st,
                 fs := (fs w)(locate e ENCODINGS_FILE \<mapsto>
                          Pickle (known_encodings st) (known_names st))\<rparr>"
  obtain err w3 where s: "sort_photo e (temp_photo_path r)
                            (set_iter e (all_names_in_photo st)) w2 = (err, w3)"
    by (cases "sort_photo e (temp_photo_path r) (set_iter e (all_names_in_photo st)) w2")
  have w3: "temp_face_encoding_cache w3 = cache st"
    using sort_photo_cache [of e "temp_photo_path r" "set_iter e (all_names_in_photo st)" w2] s
    by (simp add: w2_def)
  show ?thesis
    unfolding finalize_written [OF Written st_def w2_def]
    using s w3
    by (cases err) (simp_all add: fold_remove_crop_cache remove_quietly_cache w2_def st_def)
next
  case OpenFailed
  then show ?thesis by (simp add: finalize_open_failed)
next
  case DumpFailed
  then show ?thesis by (simp add: finalize_dump_failed)
qed

lemma finalize_remove_ok:
  "fst (finalize_and_sort (e\<lparr>remove_ok := f\<rparr>) r w) = fst (finalize_and_sort e r w)"
  by (cases "pickle_dump e")
     (auto simp: finalize_and_sort_def save_known_faces_def Let_def sort_photo_remove_ok
        learn_new_faces_remove_ok path_exists_def locate_def
        split: prod.splits option.splits)

lemma finalize_success:
  assumes "pickle_dump e = Written" and "path_exists e w (temp_photo_path r)"
    and "\<forall>nm\<in>set (set_iter e (all_names_in_photo (learn_new_faces e r w))).
           copy_ok e (path_join SORTED_PHOTOS_DIR nm)"
  shows "fst (finalize_and_sort e r w) =
           Inr (success_message (set_iter e (all_names_in_photo (learn_new_faces e r w))))"
proof -
  define st where "st = learn_new_faces e r w"
  define w2 where "w2 = w\<lparr>temp_face_encoding_cache := cache st,
                 fs := (fs w)(locate e ENCODINGS_FILE \<mapsto>
                          Pickle (known_encodings st) (known_names st))\<rparr>"
  have ex: "path_exists e w2 (temp_photo_path r)"
    using assms(2) by (auto simp: path_exists_def w2_def)
  have "fst (sort_photo e (temp_photo_path r) (set_iter e (all_names_in_photo st)) w2) = None"
    using ex assms(3) unfolding st_def by (rule sort_photo_succeeds)
  then obtain w3 where "sort_photo e (temp_photo_path r)
                          (set_iter e (all_names_in_photo st)) w2 = (None, w3)"
    by (metis prod.collapse)
  then show ?thesis
    unfolding finalize_written [OF assms(1) st_def w2_def] using ex by (simp add: st_def)
qed


text \<open>
  The store after the call, as long as no copy of the photo is written onto it: what
  was saved, what was there before, an unreadable file, or nothing.
\<close>

lemma finalize_store_cases:
  assumes "\<forall>nm\<in>set (set_iter e (all_names_in_photo (learn_new_faces e r w))).
             locate e (copy_target (temp_photo_path r) nm) \<noteq> locate e ENCODINGS_FILE"
  shows "fs (snd (finalize_and_sort e r w)) (locate e ENCODINGS_FILE) \<in>
           {Some (Pickle (known_encodings (learn_new_faces e r w))
                         (known_names (learn_new_faces e r w))),
            fs w (locate e ENCODINGS_FILE), Some Bytes, None}"
proof (cases "pickle_dump e")
  case Written
  define st where "st = learn_new_faces e r w"
  define w2 where "w2 = w\<lparr>temp_face_encoding_cache := cache st,
                 fs := (fs w)(locate e ENCODINGS_FILE \<mapsto>
                          Pickle (known_encodings st) (known_names st))\<rparr>"
  let ?S = "locate e ENCODINGS_FILE"
  let ?P = "Pickle (known_encodings st) (known_names st)"
  obtain err w3 where s: "sort_photo e (temp_photo_path r)
                            (set_iter e (all_names_in_photo st)) w2 = (err, w3)"
    by (cases "sort_photo e (temp_photo_path r) (set_iter e (all_names_in_photo st)) w2")
  have "fs w2 ?S = Some ?P" by (simp add: w2_def)
  then have "fs (snd (sort_photo e (temp_photo_path r)
                        (set_iter e (all_names_in_photo st)) w2)) ?S = Some ?P"
    using assms unfolding st_def by (rule sort_photo_keeps)
  then have w3: "fs w3 ?S = Some ?P" using s by simp
  have rm: "fs (fold (remove_crop e) (new_labels r) (remove_quietly e (temp_photo_path r) w3)) ?S
              = Some ?P \<or>
            fs (fold (remove_crop e) (new_labels r) (remove_quietly e (temp_photo_path r) w3)) ?S
              = None"
    using remove_quietly_at [of e "temp_photo_path r" w3 ?S] w3
    by (simp add: fold_remove_crop_store)
  show ?thesis
    unfolding finalize_written [OF Written st_def w2_def]
    using s w3 rm
    by (cases err) (auto simp: st_def w2_def)
next
  case OpenFailed
  then show ?thesis by (simp add: finalize_open_failed)
next
  case DumpFailed
  then show ?thesis by (simp add: finalize_dump_failed)
qed

lemma finalize_store_written:
  assumes "pickle_dump e = Written"
    and "locate e (temp_photo_path r) \<noteq> locate e ENCODINGS_FILE"
    and "\<forall>nm\<in>set (set_iter e (all_names_in_photo (learn_new_faces e r w))).
             locate e (copy_target (temp_photo_path r) nm) \<noteq> locate e ENCODINGS_FILE"
  shows "fs (snd (finalize_and_sort e r w)) (locate e ENCODINGS_FILE) =
           Some (Pickle (known_encodings (learn_new_faces e r w))
                        (known_names (learn_new_faces e r w)))"
proof -
  define st where "st = learn_new_faces e r w"
  define w2 where "w2 = w\<lparr>temp_face_encoding_cache := cache st,
                 fs := (fs w)(locate e ENCODINGS_FILE \<mapsto>
                          Pickle (known_encodings st) (known_names st))\<rparr>"
  let ?S = "locate e ENCODINGS_FILE"
  let ?P = "Pickle (known_encodings st) (known_names st)"
  obtain err w3 where s: "sort_photo e (temp_photo_path r)
                            (set_iter e (all_names_in_photo st)) w2 = (err, w3)"
    by (cases "sort_photo e (temp_photo_path r) (set_iter e (all_names_in_photo st)) w2")
  have "fs w2 ?S = Some ?P" by (simp add: w2_def)
  then have "fs (snd (sort_photo e (temp_photo_path r)
                        (set_iter e (all_names_in_photo st)) w2)) ?S = Some ?P"
    using assms(3) unfolding st_def by (rule sort_photo_keeps)
  then have w3: "fs w3 ?S = Some ?P" using s by simp
  have rm: "fs (fold (remove_crop e) (new_labels r) (remove_quietly e (temp_photo_path r) w3)) ?S
              = Some ?P"
    using w3 assms(2) by (simp add: fold_remove_crop_store remove_quietly_other)
  show ?thesis
    unfolding finalize_written [OF assms(1) st_def w2_def]
    using s w3 rm
    by (cases err) (auto simp: st_def w2_def)
qed

text \<open>
  Two requests for the same photo that teach the same faces end alike: the same
  result, the same store, the same cache. Their lists of labels only steer the
  removal of crops.
\<close>

lemma finalize_cong:
  assumes "learn_new_faces e r w = learn_new_faces e r' w"
    and "temp_photo_path r = temp_photo_path r'"
  shows "fst (finalize_and_sort e r w) = fst (finalize_and_sort e r' w)"
    and "fs (snd (finalize_and_sort e r w)) (locate e ENCODINGS_FILE) =
         fs (snd (finalize_and_sort e r' w)) (locate e ENCODINGS_FILE)"
proof -
  show "fst (finalize_and_sort e r w) = fst (finalize_and_sort e r' w)"
    using assms
    by (auto simp: finalize_and_sort_def Let_def split: prod.splits option.splits)
  show "fs (snd (finalize_and_sort e r w)) (locate e ENCODINGS_FILE) =
        fs (snd (finalize_and_sort e r' w)) (locate e ENCODINGS_FILE)"
    using assms
    by (auto simp: finalize_and_sort_def Let_def fold_remove_crop_store
          split: prod.splits option.splits)
qed

subsection \<open>Claims about finalize_and_sort\<close>

lemma example_learn:
  "learn_new_faces example_env example_request example_world =
     \<lparr>known_encodings = [[0, 1], [1, 0]], known_names = [''ann'', ''bob''],
      all_names_in_photo = {''ann'', ''bob''}, cache = Map.empty\<rparr>"
  by (auto simp: learn_new_faces_def example_request_def example_world_def
        load_known_faces_def learn_label_def Let_def example_locations)


lemma example_copy_targets:
  "locate example_env (copy_target ''temp_uploads/p.jpg'' ''ann'') = ''/srv/sorted_photos/ann/p.jpg''"
  "locate example_env (copy_target ''temp_uploads/p.jpg'' ''bob'') = ''/srv/sorted_photos/bob/p.jpg''"
  by (simp_all add: copy_target_def basename_def locate_def normpath_def path_join_def
        example_env_def SORTED_PHOTOS_DIR_def)

lemma example_env_facts:
  "pickle_dump example_env = Written"
  "copy_ok example_env p"
  "\<not> remove_ok example_env p"
  "set_iter example_env {''ann'', ''bob''} = [''ann'', ''bob'']"
  by (simp_all add: example_env_def)

lemma example_load:
  "load_known_faces example_env example_world = ([[0, 1]], [''ann''])"
  by (simp add: load_known_faces_def example_locations example_world_def)


lemma example_request_path: "temp_photo_path example_request = ''temp_uploads/p.jpg''"
  by (simp add: example_request_def)

lemma example_exists:
  "path_exists example_env example_world ''temp_uploads/p.jpg''"
  "\<not> path_exists example_env example_world ''temp_uploads/gone.jpg''"
  by (simp_all add: path_exists_def example_locations example_world_def)

text \<open>
  Claim C3: the persisted store is a pair of parallel lists whose equal length is
  preserved. If \<open>finalize_and_sort\<close> loads an encodings list and a names list of equal
  length, the lists it hands to \<open>save_known_faces\<close> are of equal length: each
  iteration of the learning loop leaves both lists alone or appends exactly one
  encoding and one name. \<open>save_known_faces\<close> writes both lists to the file as a
  whole. As long as no copy of the photo lands on the store, what the file holds after
  the call is again a pair of equal length, and it is the pair that was saved when the
  photo's own path does not lead to the store either.
\<close>

theorem finalize_and_sort_parallel_lists:
  assumes "load_known_faces e w = (encs, names)" and "length encs = length names"
  shows "length (known_encodings (learn_new_faces e r w)) =
           length (known_names (learn_new_faces e r w)) \<and>
         (\<forall>label st.
            (known_encodings (learn_label label st) = known_encodings st \<and>
             known_names (learn_label label st) = known_names st) \<or>
            (\<exists>enc. known_encodings (learn_label label st) = known_encodings st @ [enc] \<and>
                   known_names (learn_label label st) = known_names st @ [name label])) \<and>
         (\<forall>es ns. save_known_faces Written e es ns w =
                    (None, w\<lparr>fs := (fs w)(locate e ENCODINGS_FILE \<mapsto> Pickle es ns)\<rparr>)) \<and>
         (\<forall>es ns. encodings_file e (snd (save_known_faces Written e es ns w)) = Some (es, ns)) \<and>
         (pickle_dump e = Written \<and>
          locate e (temp_photo_path r) \<noteq> locate e ENCODINGS_FILE \<and>
          (\<forall>nm\<in>set (set_iter e (all_names_in_photo (learn_new_faces e r w))).
              locate e (copy_target (temp_photo_path r) nm) \<noteq> locate e ENCODINGS_FILE) \<longrightarrow>
            encodings_file e (snd (finalize_and_sort e r w)) =
              Some (known_encodings (learn_new_faces e r w), known_names (learn_new_faces e r w))) \<and>
         ((\<forall>nm\<in>set (set_iter e (all_names_in_photo (learn_new_faces e r w))).
              locate e (copy_target (temp_photo_path r) nm) \<noteq> locate e ENCODINGS_FILE) \<longrightarrow>
            (\<forall>es ns. encodings_file e (snd (finalize_and_sort e r w)) = Some (es, ns) \<longrightarrow>
                     length es = length ns))"
proof -
  let ?st = "learn_new_faces e r w"
  let ?S = "locate e ENCODINGS_FILE"
  let ?nocopy = "\<forall>nm\<in>set (set_iter e (all_names_in_photo ?st)).
                   locate e (copy_target (temp_photo_path r) nm) \<noteq> ?S"
  have len: "length (known_encodings ?st) = length (known_names ?st)"
    using assms by (rule learn_new_faces_lengths)
  have step: "\<forall>label st.
            (known_encodings (learn_label label st) = known_encodings st \<and>
             known_names (learn_label label st) = known_names st) \<or>
            (\<exists>enc. known_encodings (learn_label label st) = known_encodings st @ [enc] \<and>
                   known_names (learn_label label st) = known_names st @ [name label])"
    using learn_label_lockstep by blast
  have save: "\<forall>es ns. save_known_faces Written e es ns w =
                    (None, w\<lparr>fs := (fs w)(?S \<mapsto> Pickle es ns)\<rparr>)"
    by (simp add: save_known_faces_def)
  have saved: "\<forall>es ns. encodings_file e (snd (save_known_faces Written e es ns w)) = Some (es, ns)"
    by (simp add: save_known_faces_def encodings_file_def)
  have written: "pickle_dump e = Written \<and> locate e (temp_photo_path r) \<noteq> ?S \<and> ?nocopy \<longrightarrow>
            encodings_file e (snd (finalize_and_sort e r w)) =
              Some (known_encodings ?st, known_names ?st)"
    by (auto simp: encodings_file_def finalize_store_written)
  have old: "length es = length ns" if "fs w ?S = Some (Pickle es ns)" for es ns
    using that assms by (simp add: load_known_faces_def)
  have inv: "length es = length ns"
    if n: "?nocopy" and f: "encodings_file e (snd (finalize_and_sort e r w)) = Some (es, ns)"
    for es ns
  proof -
    have "fs (snd (finalize_and_sort e r w)) ?S = Some (Pickle es ns)"
      using f by (auto simp: encodings_file_def split: option.splits content.splits)
    moreover have "fs (snd (finalize_and_sort e r w)) ?S \<in>
           {Some (Pickle (known_encodings ?st) (known_names ?st)), fs w ?S, Some Bytes, None}"
      using n by (rule finalize_store_cases)
    ultimately have "Pickle es ns = Pickle (known_encodings ?st) (known_names ?st) \<or>
                     fs w ?S = Some (Pickle es ns)"
      by auto
    then show ?thesis using len old by auto
  qed
  show ?thesis using len step save saved written inv by blast
qed

theorem finalize_and_sort_parallel_lists_witness:
  "load_known_faces example_env example_world = ([[0, 1]], [''ann'']) \<and>
   length [[0, 1 :: real]] = length [''ann''] \<and>
   encodings_file example_env
     (snd (finalize_and_sort example_env example_request example_world)) =
     Some ([[0, 1], [1, 0]], [''ann'', ''bob''])"
proof -
  have n: "length [[0, 1 :: real]] = length [''ann'']" by simp
  have h: "pickle_dump example_env = Written \<and>
           locate example_env (temp_photo_path example_request) \<noteq>
             locate example_env ENCODINGS_FILE \<and>
           (\<forall>nm\<in>set (set_iter example_env
                        (all_names_in_photo
                           (learn_new_faces example_env example_request example_world))).
               locate example_env (copy_target (temp_photo_path example_request) nm) \<noteq>
                 locate example_env ENCODINGS_FILE)"
    by (simp add: example_learn example_env_facts example_request_path example_locations
          example_copy_targets)
  have "encodings_file example_env
          (snd (finalize_and_sort example_env example_request example_world)) =
        Some (known_encodings (learn_new_faces example_env example_request example_world),
              known_names (learn_new_faces example_env example_request example_world))"
    using finalize_and_sort_parallel_lists [where r = example_request, OF example_load n] h
    by blast
  then show ?thesis using example_load by (simp add: example_learn)
qed

text \<open>
  Claim C4: \<open>finalize_and_sort\<close> never fails because of clean-up. Its result does
  not depend on which removals fail; once the store is written, the photo exists and
  is copied into each person's folder, the endpoint returns its success message
  whatever happens while the temporary photo and the crops are deleted.
\<close>

theorem finalize_and_sort_cleanup_swallowed:
  "fst (finalize_and_sort (e\<lparr>remove_ok := f\<rparr>) r w) = fst (finalize_and_sort e r w) \<and>
   (pickle_dump e = Written \<and> path_exists e w (temp_photo_path r) \<and>
    (\<forall>nm\<in>set (set_iter e (all_names_in_photo (learn_new_faces e r w))).
        copy_ok e (path_join SORTED_PHOTOS_DIR nm)) \<longrightarrow>
    fst (finalize_and_sort (e\<lparr>remove_ok := f\<rparr>) r w) =
      Inr (success_message (set_iter e (all_names_in_photo (learn_new_faces e r w)))))"
proof -
  have indep: "fst (finalize_and_sort (e\<lparr>remove_ok := f\<rparr>) r w) = fst (finalize_and_sort e r w)"
    by (rule finalize_remove_ok)
  show ?thesis
    unfolding indep using finalize_success [of e w r] by simp
qed

theorem finalize_and_sort_cleanup_swallowed_witness:
  "pickle_dump example_env = Written \<and>
   path_exists example_env example_world (temp_photo_path example_request) \<and>
   (\<forall>p. \<not> remove_ok (example_env\<lparr>remove_ok := (\<lambda>p. False)\<rparr>) p) \<and>
   fst (finalize_and_sort (example_env\<lparr>remove_ok := (\<lambda>p. False)\<rparr>) example_request example_world) =
     Inr ''Photo sorted successfully for ann, bob''"
proof -
  have ex: "path_exists example_env example_world (temp_photo_path example_request)"
    by (simp add: example_request_path example_exists)
  have h: "pickle_dump example_env = Written \<and>
           path_exists example_env example_world (temp_photo_path example_request) \<and>
           (\<forall>nm\<in>set (set_iter example_env
                        (all_names_in_photo
                           (learn_new_faces example_env example_request example_world))).
               copy_ok example_env (path_join SORTED_PHOTOS_DIR nm))"
    using ex by (simp add: example_env_facts)
  have "fst (finalize_and_sort (example_env\<lparr>remove_ok := (\<lambda>p. False)\<rparr>) example_request
               example_world) =
        Inr (success_message
               (set_iter example_env
                  (all_names_in_photo
                     (learn_new_faces example_env example_request example_world))))"
    using finalize_and_sort_cleanup_swallowed
            [where e = example_env and f = "\<lambda>p. False" and r = example_request
               and w = example_world] h
    by blast
  then show ?thesis
    using ex by (simp add: example_learn example_env_facts success_message_def)
qed




lemma fold_learn_label_blank:
  assumes "name label = []"
  shows "fold learn_label (before @ label # after) st = fold learn_label (before @ after) st"
  using assms by (simp add: learn_label_blank)

lemma learn_new_faces_blank:
  assumes "name label = []"
  shows "learn_new_faces e (r\<lparr>new_labels := before @ label # after\<rparr>) w =
         learn_new_faces e (r\<lparr>new_labels := before @ after\<rparr>) w"
  unfolding learn_new_faces_def using fold_learn_label_blank [OF assms] by simp

text \<open>
  Claim C9: an entry of \<open>new_labels\<close> whose name is the empty string changes nothing
  in the learning loop: nothing is appended to the lists that are saved, the name is
  not added to the set of people the photo is sorted under, and the entry's encoding
  stays in the cache. The request with the entry and the request without it give the
  same result, the same pickle file and the same cache.
\<close>

theorem blank_label_ignored:
  assumes "name label = []"
  shows "learn_label label st = st \<and>
         learn_new_faces e (r\<lparr>new_labels := before @ label # after\<rparr>) w =
           learn_new_faces e (r\<lparr>new_labels := before @ after\<rparr>) w \<and>
         fst (finalize_and_sort e (r\<lparr>new_labels := before @ label # after\<rparr>) w) =
           fst (finalize_and_sort e (r\<lparr>new_labels := before @ after\<rparr>) w) \<and>
         encodings_file e (snd (finalize_and_sort e (r\<lparr>new_labels := before @ label # after\<rparr>) w)) =
           encodings_file e (snd (finalize_and_sort e (r\<lparr>new_labels := before @ after\<rparr>) w)) \<and>
         temp_face_encoding_cache (snd (finalize_and_sort e (r\<lparr>new_labels := before @ label # after\<rparr>) w)) =
           temp_face_encoding_cache (snd (finalize_and_sort e (r\<lparr>new_labels := before @ after\<rparr>) w))"
proof -
  have step: "learn_label label st = st"
    using assms by (rule learn_label_blank)
  have learn: "learn_new_faces e (r\<lparr>new_labels := before @ label # after\<rparr>) w =
               learn_new_faces e (r\<lparr>new_labels := before @ after\<rparr>) w"
    using assms by (rule learn_new_faces_blank)
  have res: "fst (finalize_and_sort e (r\<lparr>new_labels := before @ label # after\<rparr>) w) =
             fst (finalize_and_sort e (r\<lparr>new_labels := before @ after\<rparr>) w)"
    using learn by (rule finalize_cong(1)) simp
  have store: "fs (snd (finalize_and_sort e (r\<lparr>new_labels := before @ label # after\<rparr>) w))
                  (locate e ENCODINGS_FILE) =
               fs (snd (finalize_and_sort e (r\<lparr>new_labels := before @ after\<rparr>) w))
                  (locate e ENCODINGS_FILE)"
    using learn by (rule finalize_cong(2)) simp
  show ?thesis
    using step learn res store by (simp add: encodings_file_def finalize_cache)
qed

theorem blank_label_ignored_witness:
  "name \<lparr>temp_id = ''u0'', name = ''''\<rparr> = [] \<and>
   temp_face_encoding_cache example_world ''u0'' = Some (Some [1, 0]) \<and>
   learn_new_faces example_env
       (example_request\<lparr>new_labels := [] @ \<lparr>temp_id = ''u0'', name = ''''\<rparr> # []\<rparr>)
       example_world =
     \<lparr>known_encodings = [[0, 1]], known_names = [''ann''],
      all_names_in_photo = {''ann''}, cache = [''u0'' \<mapsto> Some [1, 0]]\<rparr>"
  using blank_label_ignored
          [where label = "\<lparr>temp_id = ''u0'', name = ''''\<rparr>" and r = example_request
             and before = "[]" and after = "[]" and w = example_world and e = example_env]
  by (simp add: learn_new_faces_def load_known_faces_def example_request_def example_world_def
        example_locations)

subsection \<open>process_photo without faces\<close>





subsection \<open>Deduplication within one image\<close>

lemma close_to_seen_iff:
  "close_to_seen ses enc \<longleftrightarrow>
     (\<exists>se\<in>set ses. \<exists>dd. cosine_distance se enc = Inr dd \<and> dd < 8 / 100)"
  by (induction ses) (auto split: sum.splits)

lemma overlaps_seen_iff:
  "overlaps_seen sbs b \<longleftrightarrow> (\<exists>sb\<in>set sbs. box_iou (real_box sb) (real_box b) > 6 / 10)"
  by (induction sbs) auto

lemma is_duplicate_iff:
  "is_duplicate seen_encs seen_bxs encoding b \<longleftrightarrow>
     (\<exists>enc. encoding = Some enc \<and>
        (\<exists>se\<in>set seen_encs. \<exists>dd. cosine_distance se enc = Inr dd \<and> dd < 8 / 100)) \<or>
     (\<exists>sb\<in>set seen_bxs. box_iou (real_box sb) (real_box b) > 6 / 10)"
proof (cases encoding)
  case None
  then show ?thesis
    by (cases "seen_bxs = []") (simp_all add: is_duplicate_def overlaps_seen_iff)
next
  case (Some enc)
  then show ?thesis
    by (cases "seen_bxs = []"; cases "seen_encs = []")
       (auto simp: is_duplicate_def Let_def overlaps_seen_iff close_to_seen_iff)
qed

lemma process_detection_duplicate:
  assumes "is_duplicate (seen_encodings st) (seen_boxes st) (detection_encoding d idx)
             (clip_box (img_width d) (img_height d) bx)"
  shows "process_detection e ke kn d (idx, bx) st = Inr st"
  using assms by (simp add: process_detection_def Let_def)

lemma scan_faces_append:
  "scan_faces e ke kn d (xs @ ys) st =
     (case scan_faces e ke kn d xs st of
        (Some err, st') \<Rightarrow> (Some err, st')
      | (None, st') \<Rightarrow> scan_faces e ke kn d ys st')"
proof (induction xs arbitrary: st)
  case Nil
  then show ?case by simp
next
  case (Cons x xs)
  then show ?case by (cases "process_detection e ke kn d x st") simp_all
qed

lemma scan_faces_skip_duplicate:
  assumes "is_duplicate (seen_encodings (snd (scan_faces e ke kn d before st)))
             (seen_boxes (snd (scan_faces e ke kn d before st)))
             (detection_encoding d idx) (clip_box (img_width d) (img_height d) bx)"
  shows "scan_faces e ke kn d (before @ (idx, bx) # after) st =
         scan_faces e ke kn d (before @ after) st"
proof (cases "scan_faces e ke kn d before st")
  case (Pair r st1)
  show ?thesis
  proof (cases r)
    case None
    have "process_detection e ke kn d (idx, bx) st1 = Inr st1"
      using assms Pair by (simp add: process_detection_duplicate)
    then show ?thesis using Pair None by (simp add: scan_faces_append)
  next
    case (Some err)
    then show ?thesis using Pair by (simp add: scan_faces_append)
  qed
qed

text \<open>
  Claim C2: within one call of \<open>process_photo\<close>, a detected face is filtered out as
  a duplicate exactly when its embedding has cosine distance below 0.08 to an
  embedding recorded earlier in the same image, or its clipped box has IoU above 0.6
  with a box recorded earlier. A filtered detection leaves the loop state as it is:
  nothing is added to \<open>identified_people\<close>, to \<open>unidentified_faces\<close> or to the cache,
  and the loop ends as it would without that detection.
\<close>

theorem duplicate_detection_filtered:
  "(is_duplicate seen_encs seen_bxs encoding b \<longleftrightarrow>
      (\<exists>enc. encoding = Some enc \<and>
         (\<exists>se\<in>set seen_encs. \<exists>dd. cosine_distance se enc = Inr dd \<and> dd < 8 / 100)) \<or>
      (\<exists>sb\<in>set seen_bxs. box_iou (real_box sb) (real_box b) > 6 / 10)) \<and>
   (is_duplicate (seen_encodings st) (seen_boxes st) (detection_encoding d idx)
        (clip_box (img_width d) (img_height d) bx) \<longrightarrow>
      process_detection e ke kn d (idx, bx) st = Inr st) \<and>
   (is_duplicate (seen_encodings (snd (scan_faces e ke kn d before st0)))
        (seen_boxes (snd (scan_faces e ke kn d before st0)))
        (detection_encoding d idx) (clip_box (img_width d) (img_height d) bx) \<longrightarrow>
      scan_faces e ke kn d (before @ (idx, bx) # after) st0 =
      scan_faces e ke kn d (before @ after) st0)"
  using is_duplicate_iff [of seen_encs seen_bxs encoding b]
        process_detection_duplicate [of st d idx bx e ke kn]
        scan_faces_skip_duplicate [of e ke kn d before st0 idx bx after]
  by blast

lemma example_dup_box:
  "is_duplicate (seen_encodings example_scan) (seen_boxes example_scan)
     (detection_encoding example_detection 1)
     (clip_box (img_width example_detection) (img_height example_detection) (12, 12, 50, 50))"
  by (simp add: is_duplicate_def example_scan_def example_detection_def detection_encoding_def
        clip_box_def Let_def cosine_distance_units box_iou_def real_box_def)

lemma example_dup_encoding:
  "is_duplicate (seen_encodings example_scan) (seen_boxes example_scan)
     (detection_encoding example_detection 2)
     (clip_box (img_width example_detection) (img_height example_detection) (100, 100, 140, 140))"
  by (simp add: is_duplicate_def example_scan_def example_detection_def detection_encoding_def
        clip_box_def Let_def cosine_distance_units box_iou_def real_box_def)

theorem duplicate_detection_filtered_witness:
  "is_duplicate (seen_encodings example_scan) (seen_boxes example_scan)
     (detection_encoding example_detection 1)
     (clip_box (img_width example_detection) (img_height example_detection) (12, 12, 50, 50)) \<and>
   process_detection example_env [[0, 1]] [''ann''] example_detection (1, (12, 12, 50, 50))
     example_scan = Inr example_scan \<and>
   is_duplicate (seen_encodings example_scan) (seen_boxes example_scan)
     (detection_encoding example_detection 2)
     (clip_box (img_width example_detection) (img_height example_detection) (100, 100, 140, 140)) \<and>
   process_detection example_env [[0, 1]] [''ann''] example_detection (2, (100, 100, 140, 140))
     example_scan = Inr example_scan"
proof -
  have p1: "process_detection example_env [[0, 1]] [''ann''] example_detection
              (1, (12, 12, 50, 50)) example_scan = Inr example_scan"
    by (rule duplicate_detection_filtered
          [where st = example_scan and d = example_detection and idx = 1
             and bx = "(12, 12, 50, 50)", THEN conjunct2, THEN conjunct1, THEN mp])
       (rule example_dup_box)
  have p2: "process_detection example_env [[0, 1]] [''ann''] example_detection
              (2, (100, 100, 140, 140)) example_scan = Inr example_scan"
    by (rule duplicate_detection_filtered
          [where st = example_scan and d = example_detection and idx = 2
             and bx = "(100, 100, 140, 140)", THEN conjunct2, THEN conjunct1, THEN mp])
       (rule example_dup_encoding)
  show ?thesis
    using p1 p2 example_dup_box example_dup_encoding by (intro conjI)
qed

text \<open>
  The first detection of the example is kept as an unidentified face, and the loop
  state it leaves is \<open>example_scan\<close>, in which the other two detections are duplicates.
\<close>

lemma example_env_process:
  "upload example_env = Written"
  "upload_content example_env = Bytes"
  "detect example_env = Some example_detection"
  "crop_save_ok example_env p"
  "uuid4 example_env 0 = ''u0''"
  "set_iter example_env {} = []"
  by (simp_all add: example_env_def)

lemma example_best_match:
  "find_best_match [[0, 1]] [1, 0] default_threshold = Inr None"
  by (simp add: find_best_match_def default_threshold_def cosine_distance_units)

lemma example_first_detection:
  "process_detection example_env [[0, 1]] [''ann''] example_detection (0, (10, 10, 50, 50))
     \<lparr>identified_people = {}, unidentified_faces = [], seen_encodings = [], seen_boxes = [],
      uuids_drawn = 0, scan_world = example_world\<rparr> =
   Inr (example_scan\<lparr>scan_world :=
          example_world\<lparr>temp_face_encoding_cache := [''u0'' \<mapsto> Some [1, 0]],
                        fs := (fs example_world)(''/srv/temp_crops/u0.jpg'' \<mapsto> Bytes)\<rparr>\<rparr>)"
  by (simp add: process_detection_def detection_encoding_def is_duplicate_def clip_box_def Let_def
        example_best_match add_unidentified_def example_env_process example_scan_def
        path_join_def TEMP_CROP_DIR_def example_locations example_detection_def example_world_def)

end
